theory Spec2Isabelle
  imports Main "HOL-Library.Sublist"
begin

section \<open>Smart Task Assistant: the task engine of \<^verbatim>\<open>task-utils.ts\<close> and the agent route\<close>

text \<open>
  The development embeds the pure task functions of \<^verbatim>\<open>src/lib/task-utils.ts\<close>
  (\<^verbatim>\<open>createTask\<close>, \<^verbatim>\<open>addTask\<close>, \<^verbatim>\<open>completeTask\<close>, \<^verbatim>\<open>uncompleteTask\<close>,
  \<^verbatim>\<open>deleteTask\<close>, \<^verbatim>\<open>findTaskByIdentifier\<close>, \<^verbatim>\<open>filterTasks\<close>, \<^verbatim>\<open>createFilter\<close>,
  \<^verbatim>\<open>createInitialState\<close>, \<^verbatim>\<open>createDemoState\<close>) and, from the agent route,
  \<^verbatim>\<open>processToolCall\<close> and the block loop of \<^verbatim>\<open>callAnthropicAPI\<close>.

  Conventions of the embedding.
  \<^item> A JavaScript string is a \<open>string\<close> (a list of characters) over ASCII. Case
    conversion touches the letters A to Z only, and white space is the ASCII white space
    of ECMAScript (tab, line feed, vertical tab, form feed, carriage return, space).
  \<^item> \<^verbatim>\<open>undefined\<close> in an optional field is \<open>None\<close>.
  \<^item> The two effects of the source, \<^verbatim>\<open>uuidv4()\<close> and
    \<^verbatim>\<open>new Date().toISOString()\<close>, are parameters: every function that calls them
    takes the value the call returns. \<^verbatim>\<open>completeTask\<close> reads the clock once for
    every task it stamps; the model takes one reading for the whole call.
  \<^item> A number is an \<open>int\<close>, and \<^verbatim>\<open>NaN\<close> is \<open>None\<close>. \<^verbatim>\<open>parseInt\<close> yields a
    double; the source only compares it with 1 and with the length of an array, and
    rounding a decimal integer to a double never moves it across such a bound, so the
    exact integer decides the same branch.
\<close>

subsection \<open>Strings\<close>

definition isWhiteSpace :: "char \<Rightarrow> bool" where
  "isWhiteSpace c = (c \<in> set [CHR 0x09, CHR 0x0A, CHR 0x0B, CHR 0x0C, CHR 0x0D, CHR 0x20])"

text \<open>\<^verbatim>\<open>String.prototype.trim\<close>: white space is removed from both ends.\<close>

definition trim :: "string \<Rightarrow> string" where
  "trim s = rev (dropWhile isWhiteSpace (rev (dropWhile isWhiteSpace s)))"

definition toLowerChar :: "char \<Rightarrow> char" where
  "toLowerChar c =
     (case map_of (zip ''ABCDEFGHIJKLMNOPQRSTUVWXYZ'' ''abcdefghijklmnopqrstuvwxyz'') c of
        Some l \<Rightarrow> l
      | None \<Rightarrow> c)"

text \<open>\<^verbatim>\<open>String.prototype.toLowerCase\<close>.\<close>

definition toLowerCase :: "string \<Rightarrow> string" where
  "toLowerCase s = map toLowerChar s"

text \<open>\<^verbatim>\<open>String.prototype.includes\<close>: the argument occurs somewhere in the string.\<close>

fun includes_str :: "string \<Rightarrow> string \<Rightarrow> bool" where
  "includes_str [] sub = (sub = [])"
| "includes_str (c # cs) sub = (prefix sub (c # cs) \<or> includes_str cs sub)"

definition isDigit :: "char \<Rightarrow> bool" where
  "isDigit c = (c \<in> set ''0123456789'')"

definition digitVal :: "char \<Rightarrow> int" where
  "digitVal c = int (of_char c) - 48"

definition digitsValue :: "string \<Rightarrow> int" where
  "digitsValue ds = foldl (\<lambda>acc d. 10 * acc + digitVal d) 0 ds"

text \<open>
  \<^verbatim>\<open>parseInt(s, 10)\<close>: leading white space is skipped, one sign is read, then the
  longest run of decimal digits; what follows the digits is ignored. With no digit the
  result is \<^verbatim>\<open>NaN\<close>.
\<close>

definition parseInt :: "string \<Rightarrow> int option" where
  "parseInt s =
     (let t = dropWhile isWhiteSpace s;
          sign = (case t of c # _ \<Rightarrow> if c = CHR ''-'' then - 1 else 1 | [] \<Rightarrow> (1::int));
          r = (case t of c # cs \<Rightarrow> if c = CHR ''-'' \<or> c = CHR ''+'' then cs else t | [] \<Rightarrow> t);
          z = takeWhile isDigit r
      in if z = [] then None else Some (sign * digitsValue z))"

text \<open>\<^verbatim>\<open>String.prototype.split(':')\<close>: the pieces between the colons, at least one.\<close>

fun split_colon :: "string \<Rightarrow> string list" where
  "split_colon [] = [[]]"
| "split_colon (c # cs) =
     (if c = CHR '':'' then [] # split_colon cs
      else (c # hd (split_colon cs)) # tl (split_colon cs))"

text \<open>\<^verbatim>\<open>Array.prototype.join\<close>.\<close>

fun join :: "string \<Rightarrow> string list \<Rightarrow> string" where
  "join sep [] = []"
| "join sep [x] = x"
| "join sep (x # y # ys) = x @ sep @ join sep (y # ys)"

text \<open>A template literal that puts a value between double quotes.\<close>

definition quoted :: "string \<Rightarrow> string" where
  "quoted s = [CHR 0x22] @ s @ [CHR 0x22]"

subsection \<open>Types (\<^verbatim>\<open>types.ts\<close>)\<close>

datatype Priority = low | medium | high

fun priority_str :: "Priority \<Rightarrow> string" where
  "priority_str low = ''low''"
| "priority_str medium = ''medium''"
| "priority_str high = ''high''"

record Task =
  id_f :: string
  title :: string
  priority :: Priority
  category :: string
  completed :: bool
  createdAt :: string
  completedAt :: "string option"

record TaskState =
  tasks :: "Task list"
  filter_f :: "string option"
  agentMessage :: "string option"

subsection \<open>Task creation and modification\<close>

text \<open>
  \<^verbatim>\<open>createTask(title, priority = 'medium', category = '')\<close>; \<open>uuid\<close> and \<open>now\<close>
  are what \<^verbatim>\<open>uuidv4()\<close> and \<^verbatim>\<open>new Date().toISOString()\<close> return. The source has no
  check on the title and no \<^verbatim>\<open>throw\<close>.
\<close>

definition createTask :: "string \<Rightarrow> string \<Rightarrow> string \<Rightarrow> Priority \<Rightarrow> string \<Rightarrow> Task" where
  "createTask uuid now ttl prio cat =
     \<lparr>id_f = uuid, title = trim ttl, priority = prio, category = trim cat,
      completed = False, createdAt = now, completedAt = None\<rparr>"

definition addTask :: "TaskState \<Rightarrow> Task \<Rightarrow> TaskState" where
  "addTask state task = state\<lparr>tasks := tasks state @ [task]\<rparr>"

definition completeTask :: "string \<Rightarrow> TaskState \<Rightarrow> string \<Rightarrow> TaskState" where
  "completeTask now state taskId =
     state\<lparr>tasks := map (\<lambda>task. if id_f task = taskId
                                 then task\<lparr>completed := True, completedAt := Some now\<rparr>
                                 else task) (tasks state)\<rparr>"

definition uncompleteTask :: "TaskState \<Rightarrow> string \<Rightarrow> TaskState" where
  "uncompleteTask state taskId =
     state\<lparr>tasks := map (\<lambda>task. if id_f task = taskId
                                 then task\<lparr>completed := False, completedAt := None\<rparr>
                                 else task) (tasks state)\<rparr>"

definition deleteTask :: "TaskState \<Rightarrow> string \<Rightarrow> TaskState" where
  "deleteTask state taskId =
     state\<lparr>tasks := filter (\<lambda>task. id_f task \<noteq> taskId) (tasks state)\<rparr>"

subsection \<open>Task lookup\<close>

definition findTaskByIdentifier :: "Task list \<Rightarrow> string \<Rightarrow> Task option" where
  "findTaskByIdentifier tsks identifier =
     (let normalized = trim (toLowerCase identifier);
          index = parseInt normalized
      in if (case index of None \<Rightarrow> False
                         | Some i \<Rightarrow> 1 \<le> i \<and> i \<le> int (length tsks))
         then Some (tsks ! nat (the index - 1))
         else if normalized = ''last'' \<or> normalized = ''last task''
         then (if length tsks > 0 then Some (tsks ! (length tsks - 1)) else None)
         else if normalized = ''first'' \<or> normalized = ''first task''
         then (if length tsks > 0 then Some (tsks ! 0) else None)
         else find (\<lambda>task. includes_str (toLowerCase (title task)) normalized) tsks)"

subsection \<open>Filtering\<close>

text \<open>
  \<^verbatim>\<open>filterTasks(tasks, filter?)\<close>. \<^verbatim>\<open>!filter\<close> holds for \<^verbatim>\<open>undefined\<close> and for
  the empty string. The destructuring \<^verbatim>\<open>[filterType, filterValue] = filter.split(':')\<close>
  takes the first two pieces; \<^verbatim>\<open>filterValue\<close> is \<^verbatim>\<open>undefined\<close> when there is no
  colon. The \<^verbatim>\<open>switch\<close> is on the lower-cased \<^verbatim>\<open>filterType\<close>.
\<close>

definition filterTasks :: "Task list \<Rightarrow> string option \<Rightarrow> Task list" where
  "filterTasks tsks flt =
     (case flt of
        None \<Rightarrow> tsks
      | Some f \<Rightarrow>
          if f = [] \<or> f = ''all'' then tsks
          else
            let parts = split_colon f;
                filterType = hd parts;
                filterValue = (if length parts > 1 then Some (parts ! 1) else None);
                key = toLowerCase filterType
            in if key = ''priority''
               then filter (\<lambda>task. Some (priority_str (priority task)) = filterValue) tsks
               else if key = ''completed''
               then (let showCompleted = (filterValue = Some ''true'')
                     in filter (\<lambda>task. completed task = showCompleted) tsks)
               else if key = ''active''
               then filter (\<lambda>task. \<not> completed task) tsks
               else if key = ''category''
               then filter (\<lambda>task. Some (toLowerCase (category task))
                                       = map_option toLowerCase filterValue) tsks
               else tsks)"

text \<open>JavaScript truthiness of an optional string.\<close>

definition truthy :: "string option \<Rightarrow> bool" where
  "truthy v = (case v of None \<Rightarrow> False | Some s \<Rightarrow> s \<noteq> [])"

definition createFilter :: "string \<Rightarrow> string option \<Rightarrow> string option" where
  "createFilter filterType filterValue =
     (if filterType = ''all'' then None
      else if filterType = ''active'' then Some ''completed:false''
      else if filterType = ''completed'' then Some ''completed:true''
      else if filterType = ''priority'' \<and> truthy filterValue
      then Some (''priority:'' @ toLowerCase (the filterValue))
      else if filterType = ''category'' \<and> truthy filterValue
      then Some (''category:'' @ toLowerCase (the filterValue))
      else None)"

subsection \<open>Initial states\<close>

definition createInitialState :: TaskState where
  "createInitialState = \<lparr>tasks = [], filter_f = None, agentMessage = None\<rparr>"

text \<open>
  \<^verbatim>\<open>createDemoState()\<close>: \<open>uuid k\<close> is the result of the \<open>k\<close>-th call of
  \<^verbatim>\<open>uuidv4()\<close>, and \<open>ago ms\<close> is the ISO string of the time \<open>ms\<close> milliseconds
  before now.
\<close>

definition createDemoState :: "(nat \<Rightarrow> string) \<Rightarrow> (int \<Rightarrow> string) \<Rightarrow> TaskState" where
  \<open>createDemoState uuid ago =
     \<lparr>tasks =
        [\<lparr>id_f = uuid 0, title = ''Review pull request'', priority = high,
          category = ''work'', completed = False, createdAt = ago 3600000,
          completedAt = None\<rparr>,
         \<lparr>id_f = uuid 1, title = ''Buy groceries'', priority = medium,
          category = ''personal'', completed = False, createdAt = ago 7200000,
          completedAt = None\<rparr>,
         \<lparr>id_f = uuid 2, title = ''Schedule dentist appointment'', priority = low,
          category = ''personal'', completed = True, createdAt = ago 86400000,
          completedAt = Some (ago 43200000)\<rparr>],
      filter_f = None,
      agentMessage = Some ''Welcome! Try saying "add a task" or "what's urgent?"''\<rparr>\<close>

subsection \<open>The executor: \<^verbatim>\<open>processToolCall\<close>\<close>

text \<open>
  A tool call is the pair of a tool name and an input object; the name decides as which
  parameter interface (\<^verbatim>\<open>AddTaskParams\<close>, \<^verbatim>\<open>TaskActionParams\<close>, \<^verbatim>\<open>FilterParams\<close>)
  the input is read. The datatype has one constructor for each \<^verbatim>\<open>case\<close> of the
  \<^verbatim>\<open>switch\<close>, with the fields of the interface (an optional field is an option), and
  one for every other name. An input without a field that its interface requires is
  outside the model.
\<close>

datatype tool_call =
    add_task string "Priority option" "string option"
  | complete_task string
  | uncomplete_task string
  | delete_task string
  | filter_tasks string "string option"
  | unknown_tool string

definition notFoundMessage :: "string \<Rightarrow> string" where
  "notFoundMessage taskIdentifier = ''Couldn't find a task matching '' @ quoted taskIdentifier"

text \<open>The result is the pair of \<^verbatim>\<open>state\<close> and \<^verbatim>\<open>action\<close>; \<^verbatim>\<open>null\<close> is \<open>None\<close>.\<close>

fun processToolCall :: "string \<Rightarrow> string \<Rightarrow> tool_call \<Rightarrow> TaskState \<Rightarrow> TaskState \<times> string option" where
  "processToolCall uuid now (add_task ttl prio cat) state =
     (let task = createTask uuid now ttl
                   (case prio of None \<Rightarrow> medium | Some p \<Rightarrow> p)
                   (if truthy cat then the cat else []);
          newState = addTask state task
      in (newState, Some (''Added '' @ quoted (title task))))"
| "processToolCall uuid now (complete_task taskIdentifier) state =
     (case findTaskByIdentifier (tasks state) taskIdentifier of
        None \<Rightarrow> (state\<lparr>agentMessage := Some (notFoundMessage taskIdentifier)\<rparr>, None)
      | Some task \<Rightarrow>
          if completed task
          then (state\<lparr>agentMessage := Some (quoted (title task) @ '' is already complete'')\<rparr>,
                None)
          else (completeTask now state (id_f task), Some (''Completed '' @ quoted (title task))))"
| "processToolCall uuid now (uncomplete_task taskIdentifier) state =
     (case findTaskByIdentifier (tasks state) taskIdentifier of
        None \<Rightarrow> (state\<lparr>agentMessage := Some (notFoundMessage taskIdentifier)\<rparr>, None)
      | Some task \<Rightarrow>
          if \<not> completed task
          then (state\<lparr>agentMessage := Some (quoted (title task) @ '' is already active'')\<rparr>,
                None)
          else (uncompleteTask state (id_f task),
                Some (''Marked '' @ quoted (title task) @ '' as active'')))"
| "processToolCall uuid now (delete_task taskIdentifier) state =
     (case findTaskByIdentifier (tasks state) taskIdentifier of
        None \<Rightarrow> (state\<lparr>agentMessage := Some (notFoundMessage taskIdentifier)\<rparr>, None)
      | Some task \<Rightarrow> (deleteTask state (id_f task), Some (''Deleted '' @ quoted (title task))))"
| "processToolCall uuid now (filter_tasks filterType filterValue) state =
     (let flt = createFilter filterType filterValue
      in (state\<lparr>filter_f := flt\<rparr>,
          Some (if truthy flt then ''Filtering by '' @ filterType else ''Showing all tasks'')))"
| "processToolCall uuid now (unknown_tool toolName) state = (state, None)"

subsection \<open>The router: the block loop of \<^verbatim>\<open>callAnthropicAPI\<close>\<close>

text \<open>
  The content of the model's response is a list of blocks; the loop looks at text blocks
  and at tool-use blocks and skips every other kind.
\<close>

datatype content_block =
    text_block string
  | tool_use_block tool_call
  | other_block

text \<open>
  The loop \<^verbatim>\<open>for (const block of response.content)\<close> with its three variables
  \<^verbatim>\<open>updatedState\<close>, \<^verbatim>\<open>actionsTaken\<close> and \<^verbatim>\<open>agentTextResponse\<close>. \<open>k\<close> is the
  position of the block in the response; \<open>uuid k\<close> and \<open>now k\<close> are what
  \<^verbatim>\<open>uuidv4()\<close> and the clock return while block \<open>k\<close> is processed.
\<close>

fun processBlocks ::
  "(nat \<Rightarrow> string) \<Rightarrow> (nat \<Rightarrow> string) \<Rightarrow> nat \<Rightarrow> content_block list
     \<Rightarrow> TaskState \<times> string list \<times> string \<Rightarrow> TaskState \<times> string list \<times> string" where
  "processBlocks uuid now k [] acc = acc"
| "processBlocks uuid now k (text_block txt # blocks) (updatedState, actionsTaken, agentTextResponse) =
     processBlocks uuid now (Suc k) blocks (updatedState, actionsTaken, txt)"
| "processBlocks uuid now k (tool_use_block call # blocks) (updatedState, actionsTaken, agentTextResponse) =
     (let result = processToolCall (uuid k) (now k) call updatedState
      in processBlocks uuid now (Suc k) blocks
           (fst result,
            if truthy (snd result) then actionsTaken @ [the (snd result)] else actionsTaken,
            agentTextResponse))"
| "processBlocks uuid now k (other_block # blocks) acc = processBlocks uuid now (Suc k) blocks acc"

text \<open>
  \<^verbatim>\<open>callAnthropicAPI\<close> after the request to the service: \<open>content\<close> is
  \<^verbatim>\<open>response.content\<close>.
\<close>

definition callAnthropicAPI ::
  "(nat \<Rightarrow> string) \<Rightarrow> (nat \<Rightarrow> string) \<Rightarrow> content_block list \<Rightarrow> TaskState \<Rightarrow> TaskState" where
  "callAnthropicAPI uuid now content currentState =
     (case processBlocks uuid now 0 content (currentState, [], []) of
        (updatedState, actionsTaken, agentTextResponse) \<Rightarrow>
          let agentTextResponse' =
                (if agentTextResponse = [] \<and> length actionsTaken > 0
                 then join ''. '' actionsTaken @ ''.''
                 else agentTextResponse)
          in updatedState\<lparr>agentMessage :=
               Some (if agentTextResponse' \<noteq> [] then agentTextResponse' else ''Done!'')\<rparr>)"

text \<open>
  The batch of the specification, in its words: the requests are applied in the given
  order, each to the store the one before it produced, and every summary that is not
  null is collected in order.
\<close>

fun applyBatch ::
  "(nat \<Rightarrow> string) \<Rightarrow> (nat \<Rightarrow> string) \<Rightarrow> nat \<Rightarrow> TaskState \<Rightarrow> tool_call list
     \<Rightarrow> TaskState \<times> string list" where
  "applyBatch uuid now k store [] = (store, [])"
| "applyBatch uuid now k store (request # requests) =
     (let next = processToolCall (uuid k) (now k) request store;
          rest = applyBatch uuid now (Suc k) (fst next) requests
      in (fst rest, (case snd next of None \<Rightarrow> [] | Some summary \<Rightarrow> [summary]) @ snd rest))"

subsection \<open>Numbers in template literals\<close>

text \<open>
  \<^verbatim>\<open>buildTaskContext\<close> numbers the tasks for the model with \<^verbatim>\<open>${index + 1}\<close>:
  the decimal numeral of a natural number.
\<close>

definition digitChar :: "nat \<Rightarrow> char" where
  "digitChar d = ''0123456789'' ! d"

fun decimal :: "nat \<Rightarrow> string" where
  "decimal n = (if n < 10 then [digitChar n] else decimal (n div 10) @ [digitChar (n mod 10)])"

declare decimal.simps [simp del]

subsection \<open>The invariant of the data model\<close>

text \<open>\<^verbatim>\<open>completedAt\<close> is present if and only if \<^verbatim>\<open>completed\<close> is true.\<close>

definition invariant_task :: "Task \<Rightarrow> bool" where
  "invariant_task task = ((completedAt task \<noteq> None) = completed task)"

definition invariant_state :: "TaskState \<Rightarrow> bool" where
  "invariant_state store = (\<forall>task \<in> set (tasks store). invariant_task task)"

text \<open>
  What one step may do to the completion stamp of a task: without a transition of
  \<^verbatim>\<open>completed\<close> the stamp is untouched, on the transition from false to true it is
  the current time, on the transition from true to false it is cleared.
\<close>

definition transition_ok :: "string \<Rightarrow> Task \<Rightarrow> Task \<Rightarrow> bool" where
  "transition_ok now old new =
     (if completed new = completed old then completedAt new = completedAt old
      else if completed new then completedAt new = Some now
      else completedAt new = None)"

subsection \<open>Sample data\<close>

text \<open>
  The demo state of the source with fixed identifiers and one fixed time, and a second
  list in which a title starts with a number.
\<close>

definition sample_uuid :: "nat \<Rightarrow> string" where
  "sample_uuid k = replicate (Suc k) (CHR ''u'')"

definition sample_time :: "int \<Rightarrow> string" where
  "sample_time ms = ''2024-05-01T12:00:00.000Z''"

definition sample_state :: TaskState where
  "sample_state = createDemoState sample_uuid sample_time"

definition sample_tasks :: "Task list" where
  "sample_tasks = tasks (createDemoState sample_uuid sample_time)"

definition numbered_tasks :: "Task list" where
  "numbered_tasks =
     [createTask ''a'' ''t0'' ''Buy milk'' medium [],
      createTask ''b'' ''t1'' ''Walk dog'' high [],
      createTask ''c'' ''t2'' ''2 groceries'' low []]"

text \<open>
  Two batches of tool calls: the scenario of the specification, and one in which calls
  that find no task or find the task already in the requested state stand between calls
  that succeed.
\<close>

definition batch_scenario :: "tool_call list" where
  "batch_scenario =
     [add_task ''buy milk'' (Some medium) None,
      add_task ''walk dog'' (Some high) None,
      complete_task ''1'']"

definition mixed_batch :: "tool_call list" where
  "mixed_batch =
     [complete_task ''9'',
      add_task ''x'' None None,
      complete_task ''1'',
      complete_task ''1'',
      delete_task ''zzz'',
      add_task ''y'' None None]"

section \<open>Properties\<close>

subsection \<open>Strings and numbers\<close>

lemma includes_str_sublist: "includes_str s sub \<longleftrightarrow> sublist sub s"
  by (induction s) (auto simp: sublist_Cons_right)

lemma includes_str_iff: "includes_str s sub \<longleftrightarrow> (\<exists>ps ss. s = ps @ sub @ ss)"
  by (simp add: includes_str_sublist sublist_def)

lemma isDigit_cases:
  "isDigit c \<longleftrightarrow> c = CHR ''0'' \<or> c = CHR ''1'' \<or> c = CHR ''2'' \<or> c = CHR ''3'' \<or> c = CHR ''4''
     \<or> c = CHR ''5'' \<or> c = CHR ''6'' \<or> c = CHR ''7'' \<or> c = CHR ''8'' \<or> c = CHR ''9''"
  by (auto simp: isDigit_def)

lemma isWhiteSpace_cases:
  "isWhiteSpace c \<longleftrightarrow> c = CHR 0x09 \<or> c = CHR 0x0A \<or> c = CHR 0x0B \<or> c = CHR 0x0C \<or> c = CHR 0x0D \<or> c = CHR 0x20"
  by (auto simp: isWhiteSpace_def)

lemma toLowerChar_unfold:
  "toLowerChar c = (if c \<in> set ''ABCDEFGHIJKLMNOPQRSTUVWXYZ'' then the (map_of (zip ''ABCDEFGHIJKLMNOPQRSTUVWXYZ'' ''abcdefghijklmnopqrstuvwxyz'') c) else c)"
  unfolding toLowerChar_def
  by (cases "map_of (zip ''ABCDEFGHIJKLMNOPQRSTUVWXYZ'' ''abcdefghijklmnopqrstuvwxyz'') c")
     (simp_all only: map_of_eq_None_iff option.case option.sel map_fst_zip length_Cons list.size if_True if_False
        flip: map_of_eq_None_iff, auto dest: map_of_SomeD simp del: map_of.simps)

lemma toLowerChar_other: "c \<notin> set ''ABCDEFGHIJKLMNOPQRSTUVWXYZ'' \<Longrightarrow> toLowerChar c = c"
  by (simp only: toLowerChar_unfold if_False)

lemma toLowerChar_upper:
  "c \<in> set ''ABCDEFGHIJKLMNOPQRSTUVWXYZ'' \<Longrightarrow> toLowerChar c \<in> set ''abcdefghijklmnopqrstuvwxyz''"
proof -
  assume c: "c \<in> set ''ABCDEFGHIJKLMNOPQRSTUVWXYZ''"
  then obtain l where l: "map_of (zip ''ABCDEFGHIJKLMNOPQRSTUVWXYZ'' ''abcdefghijklmnopqrstuvwxyz'') c = Some l"
    by (cases "map_of (zip ''ABCDEFGHIJKLMNOPQRSTUVWXYZ'' ''abcdefghijklmnopqrstuvwxyz'') c")
       (simp_all only: map_of_eq_None_iff map_fst_zip length_Cons list.size flip: set_map, simp_all)
  from map_of_SomeD [OF l] have "l \<in> set ''abcdefghijklmnopqrstuvwxyz''"
    by (rule set_zip_rightD)
  with l show ?thesis by (simp only: toLowerChar_def option.case)
qed

lemma toLowerChar_digit: "isDigit c \<Longrightarrow> toLowerChar c = c"
  by (rule toLowerChar_other) (auto simp: isDigit_cases)

lemma isWhiteSpace_toLowerChar: "isWhiteSpace (toLowerChar c) = isWhiteSpace c"
proof (cases "c \<in> set ''ABCDEFGHIJKLMNOPQRSTUVWXYZ''")
  case True
  have "\<not> isWhiteSpace c" using True by (auto simp: isWhiteSpace_cases)
  moreover have "\<not> isWhiteSpace (toLowerChar c)"
    using toLowerChar_upper [OF True] by (auto simp: isWhiteSpace_cases)
  ultimately show ?thesis by simp
next
  case False
  from toLowerChar_other [OF False] show ?thesis by (simp only:)
qed

lemma digit_not_space: "isDigit c \<Longrightarrow> \<not> isWhiteSpace c"
  by (auto simp: isDigit_cases isWhiteSpace_cases)

lemma digit_not_sign: "isDigit c \<Longrightarrow> c \<noteq> CHR ''-'' \<and> c \<noteq> CHR ''+''"
  by (auto simp: isDigit_cases)

lemma dropWhile_toLowerCase:
  "dropWhile isWhiteSpace (toLowerCase s) = toLowerCase (dropWhile isWhiteSpace s)"
  by (induction s) (simp_all add: toLowerCase_def isWhiteSpace_toLowerChar)

lemma rev_toLowerCase: "rev (toLowerCase s) = toLowerCase (rev s)"
  by (simp add: toLowerCase_def rev_map)

lemma trim_toLowerCase: "trim (toLowerCase s) = toLowerCase (trim s)"
  by (simp add: trim_def dropWhile_toLowerCase rev_toLowerCase)

lemma parseInt_digits:
  assumes "ds \<noteq> []" "\<forall>c \<in> set ds. isDigit c" "rest = [] \<or> \<not> isDigit (hd rest)"
  shows "parseInt (ds @ rest) = Some (digitsValue ds)"
proof -
  obtain d ds' where ds: "ds = d # ds'" using assms(1) by (cases ds) auto
  have d: "isDigit d" using assms(2) ds by simp
  have tw: "takeWhile isDigit (ds @ rest) = ds"
    using assms(2,3) by (cases rest) (auto simp: takeWhile_append2 takeWhile_eq_all_conv)
  have dw: "dropWhile isWhiteSpace (ds @ rest) = ds @ rest"
    using digit_not_space [OF d] by (simp add: ds)
  show ?thesis
    using digit_not_sign [OF d] tw assms(1) unfolding parseInt_def dw
    by (simp add: ds)
qed

lemma lt10_cases: "(d::nat) < 10 \<Longrightarrow> d = 0 \<or> d = 1 \<or> d = 2 \<or> d = 3 \<or> d = 4 \<or> d = 5 \<or> d = 6 \<or> d = 7 \<or> d = 8 \<or> d = 9"
  by arith

lemma digitChar_digit: "d < 10 \<Longrightarrow> isDigit (digitChar d) \<and> digitVal (digitChar d) = int d"
  using lt10_cases [of d] by (auto simp: digitChar_def isDigit_def digitVal_def)

lemma digitsValue_snoc: "digitsValue (ds @ [c]) = 10 * digitsValue ds + digitVal c"
  by (simp add: digitsValue_def)

lemma decimal_digits: "decimal n \<noteq> [] \<and> (\<forall>c \<in> set (decimal n). isDigit c) \<and> digitsValue (decimal n) = int n"
proof (induction n rule: decimal.induct)
  case (1 n)
  show ?case
  proof (cases "n < 10")
    case True
    then show ?thesis
      using digitChar_digit [of n] by (simp add: decimal.simps [of n] digitsValue_def)
  next
    case False
    have m: "n mod 10 < 10" by simp
    have e: "10 * int (n div 10) + int (n mod 10) = int n" by presburger
    from False "1.IH" digitChar_digit [OF m] e show ?thesis
      by (simp add: decimal.simps [of n] digitsValue_snoc)
  qed
qed

lemma isDigit_toLowerChar: "isDigit (toLowerChar c) = isDigit c"
proof (cases "c \<in> set ''ABCDEFGHIJKLMNOPQRSTUVWXYZ''")
  case True
  have "\<not> isDigit c" using True by (auto simp: isDigit_cases)
  moreover have "\<not> isDigit (toLowerChar c)"
    using toLowerChar_upper [OF True] by (auto simp: isDigit_cases)
  ultimately show ?thesis by simp
next
  case False
  from toLowerChar_other [OF False] show ?thesis by (simp only:)
qed

lemma toLowerCase_digits: "\<forall>c \<in> set ds. isDigit c \<Longrightarrow> toLowerCase ds = ds"
  by (induction ds) (simp_all add: toLowerCase_def toLowerChar_digit)

lemma trim_digits:
  assumes "ds \<noteq> []" "\<forall>c \<in> set ds. isDigit c"
  shows "trim ds = ds"
proof -
  have h: "\<not> isWhiteSpace (hd ds)" using assms by (cases ds) (auto simp: digit_not_space)
  have l: "\<not> isWhiteSpace (hd (rev ds))" using assms by (cases ds rule: rev_cases) (auto simp: digit_not_space)
  have 1: "dropWhile isWhiteSpace ds = ds" using assms(1) h by (cases ds) auto
  have 2: "dropWhile isWhiteSpace (rev ds) = rev ds" using assms(1) l by (cases "rev ds") auto
  show ?thesis by (simp add: trim_def 1 2)
qed

subsection \<open>Identifier resolution\<close>

lemma findTaskByIdentifier_index:
  assumes "parseInt (trim (toLowerCase ident)) = Some n" "1 \<le> n" "n \<le> int (length tsks)"
  shows "findTaskByIdentifier tsks ident = Some (tsks ! nat (n - 1))"
  using assms by (simp add: findTaskByIdentifier_def)

lemma findTaskByIdentifier_prefix:
  assumes "trim ident = ds @ rest" "ds \<noteq> []" "\<forall>c \<in> set ds. isDigit c"
    "rest = [] \<or> \<not> isDigit (hd rest)"
    "1 \<le> digitsValue ds" "digitsValue ds \<le> int (length tsks)"
  shows "findTaskByIdentifier tsks ident = Some (tsks ! nat (digitsValue ds - 1))"
proof -
  have "trim (toLowerCase ident) = ds @ toLowerCase rest"
    using assms(1) toLowerCase_digits [OF assms(3)]
    by (simp add: trim_toLowerCase) (simp add: toLowerCase_def)
  moreover have "toLowerCase rest = [] \<or> \<not> isDigit (hd (toLowerCase rest))"
    using assms(4) by (cases rest) (auto simp: toLowerCase_def isDigit_toLowerChar)
  ultimately have "parseInt (trim (toLowerCase ident)) = Some (digitsValue ds)"
    using parseInt_digits [OF assms(2,3)] by simp
  then show ?thesis using assms(5,6) by (rule findTaskByIdentifier_index)
qed

lemma findTaskByIdentifier_decimal:
  assumes "1 \<le> n" "n \<le> length tsks"
  shows "findTaskByIdentifier tsks (decimal n) = Some (tsks ! (n - 1))"
proof -
  from decimal_digits [of n] have d: "decimal n \<noteq> []" "\<forall>c \<in> set (decimal n). isDigit c"
    "digitsValue (decimal n) = int n" by auto
  have "trim (decimal n) = decimal n @ []" using trim_digits [OF d(1,2)] by simp
  from findTaskByIdentifier_prefix [OF this d(1,2)] assms d(3)
  have "findTaskByIdentifier tsks (decimal n) = Some (tsks ! nat (int n - 1))" by simp
  moreover have "nat (int n - 1) = n - 1" by simp
  ultimately show ?thesis by simp
qed

lemma findTaskByIdentifier_title:
  assumes "normalized = trim (toLowerCase ident)"
    "\<not> (\<exists>n. parseInt normalized = Some n \<and> 1 \<le> n \<and> n \<le> int (length tsks))"
    "normalized \<notin> {''last'', ''last task'', ''first'', ''first task''}"
  shows "findTaskByIdentifier tsks ident
           = find (\<lambda>task. sublist normalized (toLowerCase (title task))) tsks"
proof -
  have "\<not> (case parseInt normalized of None \<Rightarrow> False
                | Some i \<Rightarrow> 1 \<le> i \<and> i \<le> int (length tsks))"
    using assms(2) by (cases "parseInt normalized") auto
  then show ?thesis
    using assms(3) unfolding findTaskByIdentifier_def assms(1) [symmetric] Let_def
    by (simp add: includes_str_sublist)
qed

text \<open>
  Claim C6. When the trimmed, lower-cased identifier parses as an integer \<open>n\<close> with
  \<open>1 \<le> n \<le> length tsks\<close>, the task at position \<open>n - 1\<close> is returned; this covers
  the decimal numeral of every such \<open>n\<close>. On three tasks \<open>A\<close>, \<open>B\<close>, \<open>C\<close> the
  identifier \<open>2\<close> gives \<open>B\<close>, and \<open>0\<close> and \<open>4\<close> give no task exactly when no
  lower-cased title contains them (\<open>sublist xs ys\<close>: \<open>xs\<close> occurs in \<open>ys\<close>).
\<close>

theorem resolve_positional:
  "(parseInt (trim (toLowerCase ident)) = Some n \<and> 1 \<le> n \<and> n \<le> int (length tsks)
      \<longrightarrow> findTaskByIdentifier tsks ident = Some (tsks ! nat (n - 1)))
   \<and> (1 \<le> m \<and> m \<le> length tsks
      \<longrightarrow> findTaskByIdentifier tsks (decimal m) = Some (tsks ! (m - 1)))
   \<and> findTaskByIdentifier [A, B, C] ''2'' = Some B
   \<and> (findTaskByIdentifier [A, B, C] ''0'' = None
        \<longleftrightarrow> (\<forall>t \<in> set [A, B, C]. \<not> sublist ''0'' (toLowerCase (title t))))
   \<and> (findTaskByIdentifier [A, B, C] ''4'' = None
        \<longleftrightarrow> (\<forall>t \<in> set [A, B, C]. \<not> sublist ''4'' (toLowerCase (title t))))"
proof -
  have two: "findTaskByIdentifier [A, B, C] ''2'' = Some B"
    by (simp add: findTaskByIdentifier_def trim_def toLowerCase_def toLowerChar_def
        parseInt_def isWhiteSpace_def isDigit_def digitsValue_def digitVal_def)
  have n0: "''0'' = trim (toLowerCase ''0'')" and n4: "''4'' = trim (toLowerCase ''4'')"
    by (simp_all add: trim_def toLowerCase_def toLowerChar_def isWhiteSpace_def)
  have p0: "parseInt ''0'' = Some 0" and p4: "parseInt ''4'' = Some 4"
    by (simp_all add: parseInt_def isWhiteSpace_def isDigit_def digitsValue_def digitVal_def)
  have zero: "findTaskByIdentifier [A, B, C] ''0''
                = find (\<lambda>task. sublist ''0'' (toLowerCase (title task))) [A, B, C]"
    by (rule findTaskByIdentifier_title [OF n0]) (simp_all add: p0)
  have four: "findTaskByIdentifier [A, B, C] ''4''
                = find (\<lambda>task. sublist ''4'' (toLowerCase (title task))) [A, B, C]"
    by (rule findTaskByIdentifier_title [OF n4]) (simp_all add: p4)
  show ?thesis
    using findTaskByIdentifier_index [where ident = ident and n = n and tsks = tsks]
      findTaskByIdentifier_decimal [where n = m and tsks = tsks] two
    unfolding zero four find_None_iff by blast
qed

theorem resolve_positional_witness:
  "parseInt (trim (toLowerCase '' 2 '')) = Some 2 \<and> (1::int) \<le> 2 \<and> 2 \<le> int (length sample_tasks)
   \<and> findTaskByIdentifier sample_tasks '' 2 '' = Some (sample_tasks ! 1)
   \<and> title (sample_tasks ! 1) = ''Buy groceries''
   \<and> decimal 3 = ''3''
   \<and> findTaskByIdentifier sample_tasks ''3'' = Some (sample_tasks ! 2)
   \<and> findTaskByIdentifier sample_tasks ''0'' = None
   \<and> findTaskByIdentifier sample_tasks ''4'' = None"
proof -
  have p: "parseInt (trim (toLowerCase '' 2 '')) = Some 2" by code_simp
  have l: "length sample_tasks = 3" by code_simp
  have t: "title (sample_tasks ! 1) = ''Buy groceries''" by code_simp
  have d: "decimal 3 = ''3''" by code_simp
  have s: "[sample_tasks ! 0, sample_tasks ! 1, sample_tasks ! 2] = sample_tasks" by code_simp
  have z: "\<forall>t \<in> set sample_tasks. \<not> sublist ''0'' (toLowerCase (title t))" by code_simp
  have f: "\<forall>t \<in> set sample_tasks. \<not> sublist ''4'' (toLowerCase (title t))" by code_simp
  from resolve_positional [where ident = "'' 2 ''" and n = 2 and tsks = sample_tasks
      and m = 3 and A = "sample_tasks ! 0" and B = "sample_tasks ! 1" and C = "sample_tasks ! 2"]
  show ?thesis
    unfolding s using z f t by (simp add: p l d)
qed

text \<open>
  Claim C7. When the positional step does not apply to the normalized identifier and it
  is none of \<open>last\<close>, \<open>last task\<close>, \<open>first\<close>, \<open>first task\<close>, the result is the
  first task, in the order of the list, whose lower-cased title contains the normalized
  identifier, whatever the other fields of the tasks are; it is no task exactly when no
  title contains it.
\<close>

theorem resolve_by_title:
  "normalized = trim (toLowerCase ident)
   \<and> \<not> (\<exists>n. parseInt normalized = Some n \<and> 1 \<le> n \<and> n \<le> int (length tsks))
   \<and> normalized \<notin> {''last'', ''last task'', ''first'', ''first task''}
   \<longrightarrow>
     findTaskByIdentifier tsks ident
       = find (\<lambda>task. sublist normalized (toLowerCase (title task))) tsks
     \<and> (findTaskByIdentifier tsks ident = Some task \<longleftrightarrow>
          (\<exists>k < length tsks. tsks ! k = task
             \<and> sublist normalized (toLowerCase (title (tsks ! k)))
             \<and> (\<forall>j < k. \<not> sublist normalized (toLowerCase (title (tsks ! j))))))
     \<and> (findTaskByIdentifier tsks ident = None \<longleftrightarrow>
          (\<forall>t \<in> set tsks. \<not> sublist normalized (toLowerCase (title t))))"
proof (intro impI, elim conjE)
  assume a: "normalized = trim (toLowerCase ident)"
    "\<not> (\<exists>n. parseInt normalized = Some n \<and> 1 \<le> n \<and> n \<le> int (length tsks))"
    "normalized \<notin> {''last'', ''last task'', ''first'', ''first task''}"
  have f: "findTaskByIdentifier tsks ident
             = find (\<lambda>task. sublist normalized (toLowerCase (title task))) tsks"
    by (rule findTaskByIdentifier_title [OF a])
  show "findTaskByIdentifier tsks ident
       = find (\<lambda>task. sublist normalized (toLowerCase (title task))) tsks
     \<and> (findTaskByIdentifier tsks ident = Some task \<longleftrightarrow>
          (\<exists>k < length tsks. tsks ! k = task
             \<and> sublist normalized (toLowerCase (title (tsks ! k)))
             \<and> (\<forall>j < k. \<not> sublist normalized (toLowerCase (title (tsks ! j))))))
     \<and> (findTaskByIdentifier tsks ident = None \<longleftrightarrow>
          (\<forall>t \<in> set tsks. \<not> sublist normalized (toLowerCase (title t))))"
    unfolding f find_Some_iff find_None_iff by auto
qed

theorem resolve_by_title_witness:
  "''e'' = trim (toLowerCase '' E '')
   \<and> \<not> (\<exists>n. parseInt ''e'' = Some n \<and> 1 \<le> n \<and> n \<le> int (length (rev sample_tasks)))
   \<and> ''e'' \<notin> {''last'', ''last task'', ''first'', ''first task''}
   \<and> findTaskByIdentifier (rev sample_tasks) '' E '' = Some (sample_tasks ! 2)
   \<and> title (sample_tasks ! 2) = ''Schedule dentist appointment''
   \<and> completed (sample_tasks ! 2)
   \<and> rev sample_tasks ! 1 = sample_tasks ! 1
   \<and> sublist ''e'' (toLowerCase (title (sample_tasks ! 1)))
   \<and> \<not> completed (sample_tasks ! 1)"
proof -
  have n: "''e'' = trim (toLowerCase '' E '')" by code_simp
  have p: "parseInt ''e'' = None" by code_simp
  have k: "''e'' \<notin> {''last'', ''last task'', ''first'', ''first task''}" by code_simp
  have r: "find (\<lambda>task. sublist ''e'' (toLowerCase (title task))) (rev sample_tasks)
             = Some (sample_tasks ! 2)" by code_simp
  have t: "title (sample_tasks ! 2) = ''Schedule dentist appointment''"
    "completed (sample_tasks ! 2)" "rev sample_tasks ! 1 = sample_tasks ! 1"
    "sublist ''e'' (toLowerCase (title (sample_tasks ! 1)))" "\<not> completed (sample_tasks ! 1)"
    by code_simp+
  from resolve_by_title [where normalized = "''e''" and ident = "'' E ''"
      and tsks = "rev sample_tasks" and task = "sample_tasks ! 2"] n k
  show ?thesis unfolding p r using t by simp
qed

text \<open>
  Claim C9. When the trimmed identifier starts with a run of decimal digits \<open>ds\<close>,
  followed by nothing or by a character that is not a digit, and the value \<open>n\<close> of
  \<open>ds\<close> satisfies \<open>1 \<le> n \<le> length tsks\<close>, the task at position \<open>n - 1\<close> is
  returned, whatever follows the digits: \<open>1st task\<close> gives the first task of a list
  that is not empty and \<open>2 groceries\<close> the second task of a list of at least two.
\<close>

theorem resolve_numeric_prefix:
  "(trim ident = ds @ rest \<and> ds \<noteq> [] \<and> (\<forall>c \<in> set ds. isDigit c)
      \<and> (rest = [] \<or> \<not> isDigit (hd rest))
      \<and> 1 \<le> digitsValue ds \<and> digitsValue ds \<le> int (length tsks)
      \<longrightarrow> findTaskByIdentifier tsks ident = Some (tsks ! nat (digitsValue ds - 1)))
   \<and> (1 \<le> length tsks \<longrightarrow> findTaskByIdentifier tsks ''1st task'' = Some (tsks ! 0))
   \<and> (2 \<le> length tsks \<longrightarrow> findTaskByIdentifier tsks ''2 groceries'' = Some (tsks ! 1))"
proof -
  have t1: "trim ''1st task'' = ''1'' @ ''st task''" and t2: "trim ''2 groceries'' = ''2'' @ '' groceries''"
    by (simp_all add: trim_def isWhiteSpace_def)
  have v: "digitsValue ''1'' = 1" "digitsValue ''2'' = 2"
    by (simp_all add: digitsValue_def digitVal_def)
  have one: "1 \<le> length tsks \<Longrightarrow> findTaskByIdentifier tsks ''1st task'' = Some (tsks ! 0)"
    using findTaskByIdentifier_prefix [OF t1, of tsks] by (simp add: v isDigit_def)
  have two: "2 \<le> length tsks \<Longrightarrow> findTaskByIdentifier tsks ''2 groceries'' = Some (tsks ! 1)"
    using findTaskByIdentifier_prefix [OF t2, of tsks] by (simp add: v isDigit_def)
  show ?thesis
    using findTaskByIdentifier_prefix [of ident ds rest tsks] one two by blast
qed

theorem resolve_numeric_prefix_witness:
  "trim '' 2 Groceries'' = ''2'' @ '' Groceries'' \<and> isDigit (CHR ''2'')
   \<and> \<not> isDigit (hd '' Groceries'') \<and> digitsValue ''2'' = 2 \<and> length numbered_tasks = 3
   \<and> findTaskByIdentifier numbered_tasks '' 2 Groceries'' = Some (numbered_tasks ! 1)
   \<and> findTaskByIdentifier numbered_tasks ''2 groceries'' = Some (numbered_tasks ! 1)
   \<and> findTaskByIdentifier numbered_tasks ''1st task'' = Some (numbered_tasks ! 0)
   \<and> title (numbered_tasks ! 1) = ''Walk dog''
   \<and> title (numbered_tasks ! 2) = ''2 groceries''"
proof -
  have a: "trim '' 2 Groceries'' = ''2'' @ '' Groceries''" "isDigit (CHR ''2'')"
    "\<not> isDigit (hd '' Groceries'')" "digitsValue ''2'' = 2" "length numbered_tasks = 3"
    "title (numbered_tasks ! 1) = ''Walk dog''" "title (numbered_tasks ! 2) = ''2 groceries''"
    by code_simp+
  from resolve_numeric_prefix [where ident = "'' 2 Groceries''" and ds = "''2''"
      and rest = "'' Groceries''" and tsks = numbered_tasks]
  show ?thesis using a by simp
qed

subsection \<open>Filtering\<close>

lemma count_list_filter_le: "count_list (filter P xs) x \<le> count_list xs x"
  by (induction xs) auto

lemma filterTasks_shape:
  "filterTasks tsks flt = tsks \<or> filterTasks tsks flt = []
   \<or> (\<exists>P. filterTasks tsks flt = filter P tsks)"
  unfolding filterTasks_def Let_def by (cases flt) auto

text \<open>
  Claim C10. For every filter and every list, the result of \<^verbatim>\<open>filterTasks\<close> is a
  subsequence of the list: its elements are elements of the input, in the order of the
  input, and none occurs more often than in the input.
\<close>

theorem filterTasks_subsequence:
  "subseq (filterTasks tsks flt) tsks
   \<and> set (filterTasks tsks flt) \<subseteq> set tsks
   \<and> count_list (filterTasks tsks flt) task \<le> count_list tsks task"
  using filterTasks_shape [of tsks flt]
  by (auto simp: count_list_filter_le)

lemma split_colon_nonempty: "split_colon s \<noteq> []"
  by (induction s) auto

lemma hd_split_colon:
  "CHR '':'' \<notin> set key \<Longrightarrow> rest = [] \<or> hd rest = CHR '':'' \<Longrightarrow> hd (split_colon (key @ rest)) = key"
proof (induction key)
  case Nil
  then show ?case by (cases rest) auto
next
  case (Cons c key)
  then show ?case by auto
qed

lemma filterTasks_unrecognized:
  assumes "CHR '':'' \<notin> set key" "rest = [] \<or> hd rest = CHR '':''"
    "toLowerCase key \<notin> {''priority'', ''completed'', ''active'', ''category''}"
  shows "filterTasks tsks (Some (key @ rest)) = tsks"
  using assms(3) hd_split_colon [OF assms(1,2)]
  by (simp add: filterTasks_def Let_def)

text \<open>
  Claim C8, amended. An absent filter, the filter \<open>all\<close> and a filter whose key (the
  part before the first colon), once lower-cased, is none of \<open>priority\<close>,
  \<open>completed\<close>, \<open>active\<close>, \<open>category\<close> give the list unchanged; so does
  \<open>bogus:x\<close>.
\<close>

theorem filterTasks_fail_open:
  "filterTasks tsks None = tsks
   \<and> filterTasks tsks (Some ''all'') = tsks
   \<and> (CHR '':'' \<notin> set key \<and> (rest = [] \<or> hd rest = CHR '':'')
        \<and> toLowerCase key \<notin> {''priority'', ''completed'', ''active'', ''category''}
        \<longrightarrow> filterTasks tsks (Some (key @ rest)) = tsks)
   \<and> filterTasks tsks (Some ''bogus:x'') = tsks"
proof -
  have b: "filterTasks tsks (Some (''bogus'' @ '':x'')) = tsks"
    by (rule filterTasks_unrecognized) (simp_all add: toLowerCase_def toLowerChar_def)
  show ?thesis
    using filterTasks_unrecognized [of key rest tsks] b by (simp add: filterTasks_def)
qed

theorem filterTasks_fail_open_witness:
  "CHR '':'' \<notin> set ''Bogus'' \<and> hd '':x:y'' = CHR '':''
   \<and> toLowerCase ''Bogus'' \<notin> {''priority'', ''completed'', ''active'', ''category''}
   \<and> filterTasks sample_tasks (Some ''Bogus:x:y'') = sample_tasks
   \<and> filterTasks sample_tasks (Some ''bogus:x'') = sample_tasks
   \<and> length sample_tasks = 3"
proof -
  have k: "toLowerCase ''Bogus'' \<notin> {''priority'', ''completed'', ''active'', ''category''}"
    by code_simp
  have l: "length sample_tasks = 3" by code_simp
  from filterTasks_fail_open [where key = "''Bogus''" and rest = "'':x:y''" and tsks = sample_tasks]
  show ?thesis using k l by simp
qed

text \<open>
  Claim C8 as stated fails: the key \<open>PRIORITY\<close> is not one of the four keys, but
  \<^verbatim>\<open>filterTasks\<close> lower-cases the key before the \<^verbatim>\<open>switch\<close> and filters by
  priority.
\<close>

theorem filterTasks_key_case_counterexample:
  "''PRIORITY'' \<notin> {''priority'', ''completed'', ''active'', ''category''}
   \<and> filterTasks sample_tasks (Some ''PRIORITY:high'') = [sample_tasks ! 0]
   \<and> filterTasks sample_tasks (Some ''PRIORITY:high'') \<noteq> sample_tasks"
  by code_simp

subsection \<open>The executor\<close>

lemma findTaskByIdentifier_in_set:
  assumes "findTaskByIdentifier tsks ident = Some task"
  shows "task \<in> set tsks"
proof -
  let ?n = "trim (toLowerCase ident)"
  show ?thesis
  proof (cases "case parseInt ?n of None \<Rightarrow> False | Some i \<Rightarrow> 1 \<le> i \<and> i \<le> int (length tsks)")
    case True
    then obtain i where i: "parseInt ?n = Some i" "1 \<le> i" "i \<le> int (length tsks)"
      by (cases "parseInt ?n") auto
    then have "nat (i - 1) < length tsks" by linarith
    moreover have "task = tsks ! nat (i - 1)"
      using assms True i by (simp add: findTaskByIdentifier_def)
    ultimately show ?thesis by simp
  next
    case False
    then have "findTaskByIdentifier tsks ident =
       (if ?n = ''last'' \<or> ?n = ''last task''
        then (if length tsks > 0 then Some (tsks ! (length tsks - 1)) else None)
        else if ?n = ''first'' \<or> ?n = ''first task''
        then (if length tsks > 0 then Some (tsks ! 0) else None)
        else find (\<lambda>task. includes_str (toLowerCase (title task)) ?n) tsks)"
      by (simp add: findTaskByIdentifier_def Let_def)
    with assms show ?thesis
      by (auto simp: find_Some_iff split: if_splits)
  qed
qed

lemma distinct_id_eq:
  "distinct (map id_f tsks) \<Longrightarrow> a \<in> set tsks \<Longrightarrow> b \<in> set tsks \<Longrightarrow> id_f a = id_f b \<Longrightarrow> a = b"
  by (auto simp: distinct_map dest: inj_onD)

text \<open>
  Claim C1, amended. \<^verbatim>\<open>createTask\<close> never fails: the title of the task it returns
  is the trimmed title. For a title that is empty after trimming the task has the empty
  title, and the \<^verbatim>\<open>add_task\<close> call appends this task to the store and reports
  \<^verbatim>\<open>Added ""\<close>.
\<close>

theorem createTask_blank_title:
  \<open>title (createTask uuid now ttl prio cat) = trim ttl
   \<and> (trim ttl = [] \<longrightarrow>
        title (createTask uuid now ttl prio cat) = []
        \<and> processToolCall uuid now (add_task ttl prio_opt cat_opt) store
            = (store\<lparr>tasks := tasks store @
                 [createTask uuid now ttl (case prio_opt of None \<Rightarrow> medium | Some p \<Rightarrow> p)
                    (if truthy cat_opt then the cat_opt else [])]\<rparr>,
               Some ''Added ""''))\<close>
  by (simp add: createTask_def addTask_def quoted_def)

theorem createTask_blank_title_witness:
  \<open>trim ''   '' = []
   \<and> title (createTask ''id-1'' ''t'' ''   '' high ''work'') = []
   \<and> processToolCall ''id-1'' ''t'' (add_task ''   '' (Some high) (Some ''work'')) sample_state
        = (sample_state\<lparr>tasks := tasks sample_state @
             [\<lparr>id_f = ''id-1'', title = [], priority = high, category = ''work'',
               completed = False, createdAt = ''t'', completedAt = None\<rparr>]\<rparr>,
           Some ''Added ""'')\<close>
proof -
  have t: "trim ''   '' = []" by code_simp
  have c: "createTask ''id-1'' ''t'' ''   '' high ''work''
             = \<lparr>id_f = ''id-1'', title = [], priority = high, category = ''work'',
                completed = False, createdAt = ''t'', completedAt = None\<rparr>" by code_simp
  from createTask_blank_title [where ttl = "''   ''" and uuid = "''id-1''" and now = "''t''"
      and prio = high and cat = "''work''" and prio_opt = "Some high"
      and cat_opt = "Some ''work''" and store = sample_state]
  show ?thesis using t c by (simp add: truthy_def)
qed

text \<open>
  Claim C1 as stated fails: for the title of three spaces \<^verbatim>\<open>createTask\<close> returns a
  task with the empty title, and \<^verbatim>\<open>add_task\<close> on the empty store returns a store
  that holds it.
\<close>

theorem createTask_blank_title_counterexample:
  \<open>trim ''   '' = []
   \<and> createTask ''id-1'' ''t'' ''   '' medium []
        = \<lparr>id_f = ''id-1'', title = [], priority = medium, category = [],
           completed = False, createdAt = ''t'', completedAt = None\<rparr>
   \<and> processToolCall ''id-1'' ''t'' (add_task ''   '' None None) createInitialState
        = (\<lparr>tasks = [\<lparr>id_f = ''id-1'', title = [], priority = medium, category = [],
                       completed = False, createdAt = ''t'', completedAt = None\<rparr>],
            filter_f = None, agentMessage = None\<rparr>,
           Some ''Added ""'')
   \<and> tasks (fst (processToolCall ''id-1'' ''t'' (add_task ''   '' None None) createInitialState))
        \<noteq> tasks createInitialState\<close>
  by code_simp

text \<open>
  Claim C3. When the identifier resolves to a task that is already completed, the
  \<^verbatim>\<open>complete_task\<close> call returns the store with the same tasks (so the same
  \<^verbatim>\<open>completedAt\<close> on every task) and the same filter, no summary, and the message
  that the task is already complete.
\<close>

theorem complete_task_already_complete:
  \<open>findTaskByIdentifier (tasks store) ident = Some task \<and> completed task
   \<longrightarrow> processToolCall uuid now (complete_task ident) store
         = (store\<lparr>agentMessage := Some (''"'' @ title task @ ''" is already complete'')\<rparr>, None)
       \<and> tasks (fst (processToolCall uuid now (complete_task ident) store)) = tasks store
       \<and> map completedAt (tasks (fst (processToolCall uuid now (complete_task ident) store)))
           = map completedAt (tasks store)
       \<and> filter_f (fst (processToolCall uuid now (complete_task ident) store)) = filter_f store
       \<and> snd (processToolCall uuid now (complete_task ident) store) = None\<close>
  by (simp add: quoted_def)

theorem complete_task_already_complete_witness:
  \<open>findTaskByIdentifier (tasks sample_state) ''Dentist'' = Some (sample_tasks ! 2)
   \<and> completed (sample_tasks ! 2)
   \<and> processToolCall ''id'' ''t'' (complete_task ''Dentist'') sample_state
        = (sample_state\<lparr>agentMessage :=
             Some ''"Schedule dentist appointment" is already complete''\<rparr>, None)
   \<and> tasks (fst (processToolCall ''id'' ''t'' (complete_task ''Dentist'') sample_state))
        = tasks sample_state\<close>
proof -
  have a: "findTaskByIdentifier (tasks sample_state) ''Dentist'' = Some (sample_tasks ! 2)"
    "completed (sample_tasks ! 2)" by code_simp+
  have t: "title (sample_tasks ! 2) = ''Schedule dentist appointment''" by code_simp
  from complete_task_already_complete [where store = sample_state and ident = "''Dentist''"
      and task = "sample_tasks ! 2" and uuid = "''id''" and now = "''t''"] a
  show ?thesis by (simp add: t)
qed

text \<open>
  Claim C4. \<^verbatim>\<open>completeTask\<close> followed by \<^verbatim>\<open>uncompleteTask\<close> on the same id
  keeps the length, the filter and the message of the store; at every position a task
  with another id is the task that was there, and a task with this id is the task that
  was there with \<^verbatim>\<open>completed\<close> false and \<^verbatim>\<open>completedAt\<close> cleared, every other
  field as before.
\<close>

theorem complete_uncomplete_roundtrip:
  "length (tasks (uncompleteTask (completeTask now store taskId) taskId)) = length (tasks store)
   \<and> filter_f (uncompleteTask (completeTask now store taskId) taskId) = filter_f store
   \<and> agentMessage (uncompleteTask (completeTask now store taskId) taskId) = agentMessage store
   \<and> (\<forall>k < length (tasks store).
        tasks (uncompleteTask (completeTask now store taskId) taskId) ! k
          = (if id_f (tasks store ! k) = taskId
             then (tasks store ! k)\<lparr>completed := False, completedAt := None\<rparr>
             else tasks store ! k))
   \<and> (\<forall>k < length (tasks store).
        id_f (tasks store ! k) = taskId \<and> \<not> completed (tasks store ! k)
        \<longrightarrow> (let old = tasks store ! k;
                 new = tasks (uncompleteTask (completeTask now store taskId) taskId) ! k
             in completed new = False \<and> completedAt new = None
                \<and> id_f new = id_f old \<and> title new = title old \<and> priority new = priority old
                \<and> category new = category old \<and> createdAt new = createdAt old))"
  by (simp add: completeTask_def uncompleteTask_def Let_def)

theorem complete_uncomplete_roundtrip_witness:
  "(1::nat) < length (tasks sample_state)
   \<and> id_f (tasks sample_state ! 1) = ''uu'' \<and> \<not> completed (tasks sample_state ! 1)
   \<and> completed (tasks (completeTask ''t'' sample_state ''uu'') ! 1)
   \<and> tasks (uncompleteTask (completeTask ''t'' sample_state ''uu'') ''uu'') ! 1
        = tasks sample_state ! 1
   \<and> tasks (uncompleteTask (completeTask ''t'' sample_state ''uu'') ''uu'') ! 0
        = tasks sample_state ! 0
   \<and> tasks (uncompleteTask (completeTask ''t'' sample_state ''uu'') ''uu'') ! 2
        = tasks sample_state ! 2"
proof -
  have a: "length (tasks sample_state) = 3" "id_f (tasks sample_state ! 0) = ''u''"
    "id_f (tasks sample_state ! 1) = ''uu''" "id_f (tasks sample_state ! 2) = ''uuu''"
    "\<not> completed (tasks sample_state ! 1)" "completedAt (tasks sample_state ! 1) = None"
    "completed (tasks (completeTask ''t'' sample_state ''uu'') ! 1)"
    by code_simp+
  from complete_uncomplete_roundtrip [where store = sample_state and taskId = "''uu''"
      and now = "''t''"]
  have "\<forall>k < length (tasks sample_state).
        tasks (uncompleteTask (completeTask ''t'' sample_state ''uu'') ''uu'') ! k
          = (if id_f (tasks sample_state ! k) = ''uu''
             then (tasks sample_state ! k)\<lparr>completed := False, completedAt := None\<rparr>
             else tasks sample_state ! k)" by blast
  then have "\<forall>k \<in> {0, 1, 2}.
        tasks (uncompleteTask (completeTask ''t'' sample_state ''uu'') ''uu'') ! k
          = (if id_f (tasks sample_state ! k) = ''uu''
             then (tasks sample_state ! k)\<lparr>completed := False, completedAt := None\<rparr>
             else tasks sample_state ! k)" by (simp add: a(1))
  then show ?thesis using a by simp
qed

subsection \<open>The invariant\<close>

lemma invariant_createTask: "invariant_task (createTask uuid now ttl prio cat)"
  by (simp add: invariant_task_def createTask_def)

lemma invariant_initial: "invariant_state createInitialState"
  by (simp add: invariant_state_def createInitialState_def)

lemma invariant_demo: "invariant_state (createDemoState uuids ago)"
  by (simp add: invariant_state_def invariant_task_def createDemoState_def)

lemma invariant_addTask:
  "invariant_state store \<Longrightarrow> invariant_task task \<Longrightarrow> invariant_state (addTask store task)"
  by (simp add: invariant_state_def addTask_def)

lemma invariant_completeTask:
  "invariant_state store \<Longrightarrow> invariant_state (completeTask now store taskId)"
  by (auto simp: invariant_state_def invariant_task_def completeTask_def)

lemma invariant_uncompleteTask:
  "invariant_state store \<Longrightarrow> invariant_state (uncompleteTask store taskId)"
  by (auto simp: invariant_state_def invariant_task_def uncompleteTask_def)

lemma invariant_deleteTask:
  "invariant_state store \<Longrightarrow> invariant_state (deleteTask store taskId)"
  by (simp add: invariant_state_def deleteTask_def)

lemma invariant_message: "invariant_state (store\<lparr>agentMessage := m\<rparr>) = invariant_state store"
  by (simp add: invariant_state_def)

lemma invariant_filter: "invariant_state (store\<lparr>filter_f := f\<rparr>) = invariant_state store"
  by (simp add: invariant_state_def)

lemma invariant_processToolCall:
  assumes "invariant_state store"
  shows "invariant_state (fst (processToolCall uuid now call store))"
proof (cases call)
  case (add_task ttl prio cat)
  then show ?thesis
    using assms by (simp add: Let_def invariant_addTask invariant_createTask)
next
  case (complete_task ident)
  then show ?thesis
    using assms
    by (simp add: invariant_message invariant_completeTask split: option.splits)
next
  case (uncomplete_task ident)
  then show ?thesis
    using assms
    by (simp add: invariant_message invariant_uncompleteTask split: option.splits)
next
  case (delete_task ident)
  then show ?thesis
    using assms
    by (simp add: invariant_message invariant_deleteTask split: option.splits)
next
  case (filter_tasks ft fv)
  then show ?thesis using assms by (simp add: Let_def invariant_filter)
next
  case (unknown_tool name)
  then show ?thesis using assms by simp
qed

lemma transition_ok_refl: "transition_ok now task task"
  by (simp add: transition_ok_def)

lemma transition_processToolCall:
  assumes d: "distinct (map id_f (tasks store))"
    and nd: "\<forall>ident. call \<noteq> delete_task ident"
    and k: "k < length (tasks store)"
  shows "k < length (tasks (fst (processToolCall uuid now call store)))
         \<and> transition_ok now (tasks store ! k) (tasks (fst (processToolCall uuid now call store)) ! k)"
proof (cases call)
  case (add_task ttl prio cat)
  then show ?thesis
    using k by (simp add: Let_def addTask_def nth_append transition_ok_refl)
next
  case c: (complete_task ident)
  show ?thesis
  proof (cases "findTaskByIdentifier (tasks store) ident")
    case None
    then show ?thesis using c k by (simp add: transition_ok_refl)
  next
    case (Some task)
    have mem: "task \<in> set (tasks store)" by (rule findTaskByIdentifier_in_set [OF Some])
    have same: "id_f (tasks store ! k) = id_f task \<Longrightarrow> tasks store ! k = task"
      using distinct_id_eq [OF d _ mem] k by simp
    show ?thesis
      using c Some k same
      by (auto simp: completeTask_def transition_ok_def)
  qed
next
  case c: (uncomplete_task ident)
  show ?thesis
  proof (cases "findTaskByIdentifier (tasks store) ident")
    case None
    then show ?thesis using c k by (simp add: transition_ok_refl)
  next
    case (Some task)
    have mem: "task \<in> set (tasks store)" by (rule findTaskByIdentifier_in_set [OF Some])
    have same: "id_f (tasks store ! k) = id_f task \<Longrightarrow> tasks store ! k = task"
      using distinct_id_eq [OF d _ mem] k by simp
    show ?thesis
      using c Some k same
      by (auto simp: uncompleteTask_def transition_ok_def)
  qed
next
  case (delete_task ident)
  then show ?thesis using nd by simp
next
  case (filter_tasks ft fv)
  then show ?thesis using k by (simp add: Let_def transition_ok_refl)
next
  case (unknown_tool name)
  then show ?thesis using k by (simp add: transition_ok_refl)
qed

lemma delete_subset:
  "set (tasks (fst (processToolCall uuid now (delete_task ident) store))) \<subseteq> set (tasks store)"
  by (auto simp: deleteTask_def split: option.splits)

lemma transition_completeTask:
  assumes "\<forall>t \<in> set (tasks store). id_f t = taskId \<longrightarrow> \<not> completed t"
    and "k < length (tasks store)"
  shows "transition_ok now (tasks store ! k) (tasks (completeTask now store taskId) ! k)"
  using assms by (auto simp: completeTask_def transition_ok_def)

lemma transition_uncompleteTask:
  assumes "invariant_state store" and "k < length (tasks store)"
  shows "transition_ok now (tasks store ! k) (tasks (uncompleteTask store taskId) ! k)"
  using assms
  by (auto simp: uncompleteTask_def transition_ok_def invariant_state_def invariant_task_def)

lemma addTask_keeps:
  "k < length (tasks store) \<Longrightarrow> tasks (addTask store task) ! k = tasks store ! k"
  by (simp add: addTask_def nth_append)

lemma deleteTask_subset: "set (tasks (deleteTask store taskId)) \<subseteq> set (tasks store)"
  by (auto simp: deleteTask_def)

text \<open>
  Claim C5, amended. The invariant holds in the empty and in the demo state and for every
  created task, and \<^verbatim>\<open>addTask\<close>, \<^verbatim>\<open>completeTask\<close>, \<^verbatim>\<open>uncompleteTask\<close>,
  \<^verbatim>\<open>deleteTask\<close>, setting the filter and every tool call preserve it. The stamp of a
  task changes only on a transition, to the current time from false to true and to none
  from true to false: under \<^verbatim>\<open>completeTask\<close> when no task with the given id is
  completed already, under \<^verbatim>\<open>uncompleteTask\<close> in a store with the invariant, and under
  every tool call other than a deletion in a store with distinct ids. \<^verbatim>\<open>addTask\<close>
  keeps the tasks at their positions, and a deletion returns tasks of the old store only.
\<close>

theorem completedAt_invariant:
  "invariant_state createInitialState
   \<and> invariant_state (createDemoState uuids ago)
   \<and> invariant_task (createTask uuid now ttl prio cat)
   \<and> (invariant_state store \<and> invariant_task task \<longrightarrow> invariant_state (addTask store task))
   \<and> (invariant_state store \<longrightarrow>
         invariant_state (completeTask now store taskId)
         \<and> invariant_state (uncompleteTask store taskId)
         \<and> invariant_state (deleteTask store taskId)
         \<and> invariant_state (store\<lparr>filter_f := flt\<rparr>)
         \<and> invariant_state (fst (processToolCall uuid now call store)))
   \<and> ((\<forall>t \<in> set (tasks store). id_f t = taskId \<longrightarrow> \<not> completed t) \<longrightarrow>
         (\<forall>k < length (tasks store).
            transition_ok now (tasks store ! k) (tasks (completeTask now store taskId) ! k)))
   \<and> (invariant_state store \<longrightarrow>
         (\<forall>k < length (tasks store).
            transition_ok now (tasks store ! k) (tasks (uncompleteTask store taskId) ! k)))
   \<and> (\<forall>k < length (tasks store). tasks (addTask store task) ! k = tasks store ! k)
   \<and> set (tasks (deleteTask store taskId)) \<subseteq> set (tasks store)
   \<and> (distinct (map id_f (tasks store)) \<and> (\<forall>ident. call \<noteq> delete_task ident) \<longrightarrow>
         (\<forall>k < length (tasks store).
            k < length (tasks (fst (processToolCall uuid now call store)))
            \<and> transition_ok now (tasks store ! k)
                 (tasks (fst (processToolCall uuid now call store)) ! k)))
   \<and> set (tasks (fst (processToolCall uuid now (delete_task ident) store))) \<subseteq> set (tasks store)"
  using invariant_initial invariant_demo invariant_createTask invariant_addTask
    invariant_completeTask invariant_uncompleteTask invariant_deleteTask
    invariant_processToolCall transition_processToolCall delete_subset
    transition_completeTask transition_uncompleteTask addTask_keeps deleteTask_subset
  by (simp add: invariant_filter)

theorem completedAt_invariant_witness:
  "invariant_state sample_state
   \<and> invariant_task (createTask ''id'' ''t'' ''Call mum'' low ''family'')
   \<and> invariant_state (addTask sample_state (createTask ''id'' ''t'' ''Call mum'' low ''family''))
   \<and> invariant_state (completeTask ''t'' sample_state ''u'')
   \<and> invariant_state (uncompleteTask sample_state ''uuu'')
   \<and> invariant_state (deleteTask sample_state ''uu'')
   \<and> invariant_state (fst (processToolCall ''id'' ''t'' (complete_task ''1'') sample_state))
   \<and> invariant_state (fst (processToolCall ''id'' ''t'' (uncomplete_task ''3'') sample_state))
   \<and> length (tasks sample_state) = 3
   \<and> id_f (tasks sample_state ! 0) = ''u'' \<and> \<not> completed (tasks sample_state ! 0)
   \<and> id_f (tasks sample_state ! 1) = ''uu'' \<and> id_f (tasks sample_state ! 2) = ''uuu''
   \<and> completed (tasks sample_state ! 2)
   \<and> transition_ok ''t'' (tasks sample_state ! 0) (tasks (completeTask ''t'' sample_state ''u'') ! 0)
   \<and> completedAt (tasks (completeTask ''t'' sample_state ''u'') ! 0) = Some ''t''
   \<and> transition_ok ''t'' (tasks sample_state ! 2) (tasks (uncompleteTask sample_state ''uuu'') ! 2)
   \<and> completedAt (tasks (uncompleteTask sample_state ''uuu'') ! 2) = None
   \<and> distinct (map id_f (tasks sample_state))
   \<and> (\<forall>ident. complete_task ''1'' \<noteq> delete_task ident)
   \<and> (\<forall>ident. uncomplete_task ''3'' \<noteq> delete_task ident)
   \<and> transition_ok ''t'' (tasks sample_state ! 0)
        (tasks (fst (processToolCall ''id'' ''t'' (complete_task ''1'') sample_state)) ! 0)
   \<and> completedAt (tasks (fst (processToolCall ''id'' ''t'' (complete_task ''1'') sample_state)) ! 0)
        = Some ''t''
   \<and> transition_ok ''t'' (tasks sample_state ! 2)
        (tasks (fst (processToolCall ''id'' ''t'' (uncomplete_task ''3'') sample_state)) ! 2)
   \<and> \<not> completed (tasks (fst (processToolCall ''id'' ''t'' (uncomplete_task ''3'') sample_state)) ! 2)
   \<and> completedAt (tasks (fst (processToolCall ''id'' ''t'' (uncomplete_task ''3'') sample_state)) ! 2)
        = None"
proof -
  have a: "invariant_state sample_state" "distinct (map id_f (tasks sample_state))"
    "length (tasks sample_state) = 3"
    "id_f (tasks sample_state ! 0) = ''u''" "\<not> completed (tasks sample_state ! 0)"
    "id_f (tasks sample_state ! 1) = ''uu''" "id_f (tasks sample_state ! 2) = ''uuu''"
    "completed (tasks sample_state ! 2)"
    "completedAt (tasks (completeTask ''t'' sample_state ''u'') ! 0) = Some ''t''"
    "completedAt (tasks (uncompleteTask sample_state ''uuu'') ! 2) = None"
    "completedAt (tasks (fst (processToolCall ''id'' ''t'' (complete_task ''1'') sample_state)) ! 0)
        = Some ''t''"
    "\<not> completed (tasks (fst (processToolCall ''id'' ''t'' (uncomplete_task ''3'') sample_state)) ! 2)"
    "completedAt (tasks (fst (processToolCall ''id'' ''t'' (uncomplete_task ''3'') sample_state)) ! 2)
        = None"
    by code_simp+
  have h: "\<forall>t \<in> set (tasks sample_state). id_f t = ''u'' \<longrightarrow> \<not> completed t" by code_simp
  have k: "(0::nat) < 3" "(2::nat) < 3" by simp_all
  from completedAt_invariant [where store = sample_state and uuid = "''id''" and now = "''t''"
      and call = "complete_task ''1''" and ttl = "''Call mum''" and prio = low
      and cat = "''family''" and task = "createTask ''id'' ''t'' ''Call mum'' low ''family''"
      and taskId = "''u''"]
    completedAt_invariant [where store = sample_state and uuid = "''id''" and now = "''t''"
      and call = "uncomplete_task ''3''" and taskId = "''uuu''"]
    completedAt_invariant [where store = sample_state and taskId = "''uu''"]
  show ?thesis using a h k by simp
qed

text \<open>
  Claim C5 as stated fails for \<^verbatim>\<open>completeTask\<close>: on a task that is completed
  already there is no transition, and the stamp is replaced by the current time.
\<close>

theorem completeTask_restamp_counterexample:
  "id_f (tasks sample_state ! 2) = ''uuu''
   \<and> completed (tasks sample_state ! 2)
   \<and> completedAt (tasks sample_state ! 2) = Some ''2024-05-01T12:00:00.000Z''
   \<and> completed (tasks (completeTask ''2024-06-30T08:00:00.000Z'' sample_state ''uuu'') ! 2)
   \<and> completedAt (tasks (completeTask ''2024-06-30T08:00:00.000Z'' sample_state ''uuu'') ! 2)
        = Some ''2024-06-30T08:00:00.000Z''
   \<and> \<not> transition_ok ''2024-06-30T08:00:00.000Z'' (tasks sample_state ! 2)
          (tasks (completeTask ''2024-06-30T08:00:00.000Z'' sample_state ''uuu'') ! 2)"
  by code_simp

subsection \<open>The router\<close>

lemma action_nonempty: "snd (processToolCall uuid now call store) \<noteq> Some []"
  by (cases call) (auto simp: Let_def quoted_def split: option.splits)

lemma processBlocks_tool_use:
  "processBlocks uuid now k (map tool_use_block requests) (store, actions, txt)
     = (fst (applyBatch uuid now k store requests),
        actions @ snd (applyBatch uuid now k store requests), txt)"
proof (induction requests arbitrary: k store actions)
  case Nil
  then show ?case by simp
next
  case (Cons r rs)
  have "truthy (snd (processToolCall (uuid k) (now k) r store))
          \<longleftrightarrow> snd (processToolCall (uuid k) (now k) r store) \<noteq> None"
    using action_nonempty [of "uuid k" "now k" r store]
    by (cases "snd (processToolCall (uuid k) (now k) r store)") (auto simp: truthy_def)
  then show ?case
    by (cases "snd (processToolCall (uuid k) (now k) r store)") (simp_all add: Cons.IH Let_def)
qed

lemma callAnthropicAPI_tool_use:
  "callAnthropicAPI uuid now (map tool_use_block requests) store
     = (fst (applyBatch uuid now 0 store requests))
         \<lparr>agentMessage :=
            Some (if snd (applyBatch uuid now 0 store requests) = [] then ''Done!''
                  else join ''. '' (snd (applyBatch uuid now 0 store requests)) @ ''.'')\<rparr>"
  by (simp add: callAnthropicAPI_def processBlocks_tool_use Let_def)

lemma batch_example:
  \<open>length (tasks (callAnthropicAPI uuid now
       [tool_use_block (add_task ''buy milk'' (Some medium) None),
        tool_use_block (add_task ''walk dog'' (Some high) None),
        tool_use_block (complete_task ''1'')] createInitialState)) = 2
    \<and> title (tasks (callAnthropicAPI uuid now
       [tool_use_block (add_task ''buy milk'' (Some medium) None),
        tool_use_block (add_task ''walk dog'' (Some high) None),
        tool_use_block (complete_task ''1'')] createInitialState) ! 0) = ''buy milk''
    \<and> completed (tasks (callAnthropicAPI uuid now
       [tool_use_block (add_task ''buy milk'' (Some medium) None),
        tool_use_block (add_task ''walk dog'' (Some high) None),
        tool_use_block (complete_task ''1'')] createInitialState) ! 0)
    \<and> agentMessage (callAnthropicAPI uuid now
       [tool_use_block (add_task ''buy milk'' (Some medium) None),
        tool_use_block (add_task ''walk dog'' (Some high) None),
        tool_use_block (complete_task ''1'')] createInitialState)
        = Some ''Added "buy milk". Added "walk dog". Completed "buy milk".''\<close>
  by (simp add: callAnthropicAPI_def createInitialState_def createTask_def addTask_def
      completeTask_def deleteTask_def truthy_def quoted_def notFoundMessage_def
      findTaskByIdentifier_def trim_def toLowerCase_def toLowerChar_def parseInt_def
      isWhiteSpace_def isDigit_def digitsValue_def digitVal_def)

lemma batch_continues_example:
  \<open>map title (tasks (callAnthropicAPI uuid now
       [tool_use_block (complete_task ''9''),
        tool_use_block (add_task ''x'' None None),
        tool_use_block (complete_task ''1''),
        tool_use_block (complete_task ''1''),
        tool_use_block (delete_task ''zzz''),
        tool_use_block (add_task ''y'' None None)] createInitialState)) = [''x'', ''y'']
    \<and> agentMessage (callAnthropicAPI uuid now
       [tool_use_block (complete_task ''9''),
        tool_use_block (add_task ''x'' None None),
        tool_use_block (complete_task ''1''),
        tool_use_block (complete_task ''1''),
        tool_use_block (delete_task ''zzz''),
        tool_use_block (add_task ''y'' None None)] createInitialState)
        = Some ''Added "x". Completed "x". Added "y".''\<close>
  by (simp add: callAnthropicAPI_def createInitialState_def createTask_def addTask_def
      completeTask_def deleteTask_def truthy_def quoted_def notFoundMessage_def
      findTaskByIdentifier_def trim_def toLowerCase_def toLowerChar_def parseInt_def
      isWhiteSpace_def isDigit_def digitsValue_def digitVal_def)

lemma applyBatch_append:
  "applyBatch uuid now k store (rs1 @ rs2)
     = (fst (applyBatch uuid now (k + length rs1) (fst (applyBatch uuid now k store rs1)) rs2),
        snd (applyBatch uuid now k store rs1)
          @ snd (applyBatch uuid now (k + length rs1) (fst (applyBatch uuid now k store rs1)) rs2))"
  by (induction rs1 arbitrary: k store) (simp_all add: Let_def)

text \<open>
  Claim C2. On a response of tool-use blocks the loop of \<^verbatim>\<open>callAnthropicAPI\<close>
  computes the batch of the specification: the requests are applied in order, each to the
  store its predecessor returned, the summaries are collected in order, and the message
  is the summaries joined with a period and a space, with a final period. A batch
  \<open>rs1 @ rs2\<close> is \<open>rs1\<close> followed by \<open>rs2\<close> on the store \<open>rs1\<close> returned. The
  scenario of the specification gives two tasks, the first \<open>buy milk\<close> and completed,
  and its message; in the mixed batch the calls after a miss are still executed.
\<close>

theorem applyBatch_in_order:
  \<open>callAnthropicAPI uuid now (map tool_use_block requests) store
      = (fst (applyBatch uuid now 0 store requests))
          \<lparr>agentMessage :=
             Some (if snd (applyBatch uuid now 0 store requests) = [] then ''Done!''
                   else join ''. '' (snd (applyBatch uuid now 0 store requests)) @ ''.'')\<rparr>
   \<and> applyBatch uuid now k store (rs1 @ rs2)
      = (fst (applyBatch uuid now (k + length rs1) (fst (applyBatch uuid now k store rs1)) rs2),
         snd (applyBatch uuid now k store rs1)
           @ snd (applyBatch uuid now (k + length rs1) (fst (applyBatch uuid now k store rs1)) rs2))
   \<and> length (tasks (callAnthropicAPI uuid now (map tool_use_block batch_scenario)
                       createInitialState)) = 2
   \<and> title (tasks (callAnthropicAPI uuid now (map tool_use_block batch_scenario)
                      createInitialState) ! 0) = ''buy milk''
   \<and> completed (tasks (callAnthropicAPI uuid now (map tool_use_block batch_scenario)
                          createInitialState) ! 0)
   \<and> agentMessage (callAnthropicAPI uuid now (map tool_use_block batch_scenario)
                     createInitialState)
      = Some ''Added "buy milk". Added "walk dog". Completed "buy milk".''
   \<and> map title (tasks (callAnthropicAPI uuid now (map tool_use_block mixed_batch)
                          createInitialState)) = [''x'', ''y'']
   \<and> agentMessage (callAnthropicAPI uuid now (map tool_use_block mixed_batch)
                     createInitialState)
      = Some ''Added "x". Completed "x". Added "y".''\<close>
proof -
  have s: "map tool_use_block batch_scenario =
       [tool_use_block (add_task ''buy milk'' (Some medium) None),
        tool_use_block (add_task ''walk dog'' (Some high) None),
        tool_use_block (complete_task ''1'')]"
    by (simp add: batch_scenario_def)
  have m: "map tool_use_block mixed_batch =
       [tool_use_block (complete_task ''9''),
        tool_use_block (add_task ''x'' None None),
        tool_use_block (complete_task ''1''),
        tool_use_block (complete_task ''1''),
        tool_use_block (delete_task ''zzz''),
        tool_use_block (add_task ''y'' None None)]"
    by (simp add: mixed_batch_def)
  show ?thesis
    unfolding s m
    using callAnthropicAPI_tool_use [of uuid now requests store]
      applyBatch_append [of uuid now k store rs1 rs2]
      batch_example [of uuid now] batch_continues_example [of uuid now]
    by (intro conjI) blast+
qed

end
